theory Spec2Isabelle
  imports Complex_Main
begin

section \<open>Python values and exceptions\<close>

text \<open>
  The functions of \<^verbatim>\<open>spotipy_func.py\<close> work on the JSON objects the Spotify Web API
  returns: \<^verbatim>\<open>None\<close>, booleans, numbers, strings, lists and dictionaries with string
  keys. A dictionary is an association list read with \<open>map_of\<close>.
\<close>

datatype pyval =
    PNone
  | PBool bool
  | PInt int
  | PFloat real
  | PStr string
  | PList "pyval list"
  | PDict "(string \<times> pyval) list"

text \<open>The exceptions the modelled code can raise; \<open>SpotifyException\<close> stands for any
  failure of a remote call.\<close>

datatype error =
    ValueError
  | TypeError
  | KeyError
  | IndexError
  | AttributeError
  | SpotifyException

definition ebind :: "error + 'a \<Rightarrow> ('a \<Rightarrow> error + 'b) \<Rightarrow> error + 'b" where
  "ebind m f = (case m of Inl e \<Rightarrow> Inl e | Inr v \<Rightarrow> f v)"

text \<open>Evaluating the elements of a list display from left to right: the first element
  that raises decides the exception.\<close>

fun sequence_err :: "(error + 'a) list \<Rightarrow> error + 'a list" where
  "sequence_err [] = Inr []"
| "sequence_err (m # ms) =
     (case m of
        Inl e \<Rightarrow> Inl e
      | Inr v \<Rightarrow> (case sequence_err ms of Inl e \<Rightarrow> Inl e | Inr vs \<Rightarrow> Inr (v # vs)))"

text \<open>Python's truth value of an object, as \<^verbatim>\<open>if x\<close> and \<^verbatim>\<open>not x\<close> test it.\<close>

fun truthy :: "pyval \<Rightarrow> bool" where
  "truthy PNone = False"
| "truthy (PBool b) = b"
| "truthy (PInt i) = (i \<noteq> 0)"
| "truthy (PFloat x) = (x \<noteq> 0)"
| "truthy (PStr s) = (s \<noteq> [])"
| "truthy (PList xs) = (xs \<noteq> [])"
| "truthy (PDict kvs) = (kvs \<noteq> [])"

text \<open>Reading position \<open>i\<close> of a list or string as Python does: \<open>-1\<close> is the last
  position, and a position outside the sequence raises \<open>IndexError\<close>.\<close>

definition seq_index :: "'a list \<Rightarrow> int \<Rightarrow> error + 'a" where
  "seq_index xs i =
     (if 0 \<le> i \<and> i < int (length xs) then Inr (xs ! nat i)
      else if i < 0 \<and> - int (length xs) \<le> i then Inr (xs ! nat (int (length xs) + i))
      else Inl IndexError)"

text \<open>The subscription \<^verbatim>\<open>value[key]\<close>. Dictionaries have string keys only, so any other
  hashable key is a missing key; lists and dictionaries are unhashable.\<close>

fun getitem :: "pyval \<Rightarrow> pyval \<Rightarrow> error + pyval" where
  "getitem (PDict kvs) (PStr k) = (case map_of kvs k of None \<Rightarrow> Inl KeyError | Some v \<Rightarrow> Inr v)"
| "getitem (PDict kvs) (PList ks) = Inl TypeError"
| "getitem (PDict kvs) (PDict ks) = Inl TypeError"
| "getitem (PDict kvs) k = Inl KeyError"
| "getitem (PList xs) (PInt i) = seq_index xs i"
| "getitem (PList xs) (PBool b) = seq_index xs (if b then 1 else 0)"
| "getitem (PList xs) k = Inl TypeError"
| "getitem (PStr s) (PInt i) = ebind (seq_index s i) (\<lambda>c. Inr (PStr [c]))"
| "getitem (PStr s) (PBool b) = ebind (seq_index s (if b then 1 else 0)) (\<lambda>c. Inr (PStr [c]))"
| "getitem (PStr s) k = Inl TypeError"
| "getitem v k = Inl TypeError"

text \<open>The method call \<^verbatim>\<open>d.get(key, default)\<close>; only dictionaries have it.\<close>

fun dict_get :: "pyval \<Rightarrow> string \<Rightarrow> pyval \<Rightarrow> error + pyval" where
  "dict_get (PDict kvs) k d = (case map_of kvs k of None \<Rightarrow> Inr d | Some v \<Rightarrow> Inr v)"
| "dict_get v k d = Inl AttributeError"

section \<open>Nested-path resolver\<close>

text \<open>\<^verbatim>\<open>re.split(r'[\[\]]', string)\<close>: the input is cut at every bracket character; n
  brackets give n + 1 parts, empty ones included.\<close>

fun re_split_brackets :: "string \<Rightarrow> string list" where
  "re_split_brackets [] = [[]]"
| "re_split_brackets (c # cs) =
     (if c = CHR ''['' \<or> c = CHR '']'' then [] # re_split_brackets cs
      else (case re_split_brackets cs of
              [] \<Rightarrow> [[c]]
            | p # ps \<Rightarrow> (c # p) # ps))"

definition split_by_brackets :: "string \<Rightarrow> string list" where
  "split_by_brackets string = (let parts = re_split_brackets string in filter (\<lambda>part. part \<noteq> []) parts)"

text \<open>\<^verbatim>\<open>get_nested_value\<close>: the loop \<^verbatim>\<open>for key in key_path: value = value[key]\<close>.\<close>

fun get_nested_value :: "pyval \<Rightarrow> pyval list \<Rightarrow> error + pyval" where
  "get_nested_value v [] = Inr v"
| "get_nested_value v (key # key_path) =
     (case getitem v key of Inl e \<Rightarrow> Inl e | Inr v' \<Rightarrow> get_nested_value v' key_path)"

text \<open>\<^verbatim>\<open>get_track_info\<close>: one value per requested path, the first failure aborts.\<close>

fun get_track_info :: "pyval \<Rightarrow> string list \<Rightarrow> error + pyval list" where
  "get_track_info track [] = Inr []"
| "get_track_info track (feature # features) =
     (let key_path = split_by_brackets feature in
      case get_nested_value track (map PStr key_path) of
        Inl e \<Rightarrow> Inl e
      | Inr v \<Rightarrow> (case get_track_info track features of
                    Inl e \<Rightarrow> Inl e
                  | Inr vs \<Rightarrow> Inr (v # vs)))"

section \<open>The Spotify client\<close>

text \<open>
  The client object \<^verbatim>\<open>sp\<close> is the only thing with state: each method call is a request
  to the remote service, which answers (or raises) and may change. The service is a
  parameter: a state of any type \<open>'s\<close> and one transition function per method used.
  \<open>requests\<close> records the calls made, in order.
\<close>

datatype request =
    AudioFeaturesRequest "pyval list"
  | SearchRequest string string nat

record 's spotify =
  audio_features_impl :: "'s \<Rightarrow> pyval list \<Rightarrow> (error + pyval) \<times> 's"
  search_impl :: "'s \<Rightarrow> string \<Rightarrow> string \<Rightarrow> nat \<Rightarrow> (error + pyval) \<times> 's"
  remote :: 's
  requests :: "request list"

definition sp_audio_features :: "'s spotify \<Rightarrow> pyval list \<Rightarrow> (error + pyval) \<times> 's spotify" where
  "sp_audio_features sp batch =
     (case audio_features_impl sp (remote sp) batch of
        (r, s') \<Rightarrow> (r, sp\<lparr>remote := s', requests := requests sp @ [AudioFeaturesRequest batch]\<rparr>))"

definition sp_search :: "'s spotify \<Rightarrow> string \<Rightarrow> string \<Rightarrow> nat \<Rightarrow> (error + pyval) \<times> 's spotify" where
  "sp_search sp q ty limit =
     (case search_impl sp (remote sp) q ty limit of
        (r, s') \<Rightarrow> (r, sp\<lparr>remote := s', requests := requests sp @ [SearchRequest q ty limit]\<rparr>))"

text \<open>\<^verbatim>\<open>list.extend(iterable)\<close>: a list gives its elements, a dictionary its keys, a string
  its characters; the other values are not iterable.\<close>

fun list_extend :: "pyval list \<Rightarrow> pyval \<Rightarrow> error + pyval list" where
  "list_extend xs (PList ys) = Inr (xs @ ys)"
| "list_extend xs (PDict kvs) = Inr (xs @ map (\<lambda>kv. PStr (fst kv)) kvs)"
| "list_extend xs (PStr s) = Inr (xs @ map (\<lambda>c. PStr [c]) s)"
| "list_extend xs v = Inl TypeError"

text \<open>\<^verbatim>\<open>get_audio_features\<close>: the loop \<^verbatim>\<open>for i in range(0, len(track_ids), 100)\<close> with the
  slice \<^verbatim>\<open>track_ids[i:i+100]\<close>; an exception of the request or of \<^verbatim>\<open>extend\<close> ends it.\<close>

function get_audio_features_loop ::
  "'s spotify \<Rightarrow> pyval list \<Rightarrow> nat \<Rightarrow> pyval list \<Rightarrow> (error + pyval list) \<times> 's spotify" where
  "get_audio_features_loop sp track_ids i audio_features =
     (if i < length track_ids then
        (case sp_audio_features sp (take 100 (drop i track_ids)) of
           (Inl e, sp') \<Rightarrow> (Inl e, sp')
         | (Inr response, sp') \<Rightarrow>
             (case list_extend audio_features response of
                Inl e \<Rightarrow> (Inl e, sp')
              | Inr audio_features' \<Rightarrow> get_audio_features_loop sp' track_ids (i + 100) audio_features'))
      else (Inr audio_features, sp))"
  by pat_completeness auto
termination
  by (relation "measure (\<lambda>(sp, track_ids, i, audio_features). length track_ids - i)") auto

declare get_audio_features_loop.simps [simp del]

definition get_audio_features :: "'s spotify \<Rightarrow> pyval list \<Rightarrow> (error + pyval list) \<times> 's spotify" where
  "get_audio_features sp track_ids = get_audio_features_loop sp track_ids 0 []"

text \<open>\<^verbatim>\<open>extract_track_ids\<close>: the comprehension
  \<^verbatim>\<open>[item['track']['id'] for item in tracks if item['track']]\<close>. The client argument is
  not used.\<close>

fun extract_track_ids :: "'c \<Rightarrow> pyval list \<Rightarrow> error + pyval list" where
  "extract_track_ids sp [] = Inr []"
| "extract_track_ids sp (item # tracks) =
     (case getitem item (PStr ''track'') of
        Inl e \<Rightarrow> Inl e
      | Inr cond \<Rightarrow>
          if truthy cond then
            (case ebind (getitem item (PStr ''track'')) (\<lambda>t. getitem t (PStr ''id'')) of
               Inl e \<Rightarrow> Inl e
             | Inr track_id \<Rightarrow>
                 (case extract_track_ids sp tracks of
                    Inl e \<Rightarrow> Inl e
                  | Inr track_ids \<Rightarrow> Inr (track_id # track_ids)))
          else extract_track_ids sp tracks)"

section \<open>Record flattener\<close>

definition base_column_names :: "string list" where
  "base_column_names =
     [''added_at'', ''track_name'', ''track_id'', ''artist'', ''album'', ''popularity'',
      ''danceability'', ''energy'', ''key'', ''loudness'', ''mode'', ''speechiness'',
      ''acousticness'', ''instrumentalness'', ''liveness'', ''valence'', ''tempo'',
      ''duration_ms'', ''time_signature'', ''label'']"

text \<open>The body of the loop of \<^verbatim>\<open>merge_track_details_and_features\<close> after the guard:
  \<^verbatim>\<open>track = item['track']\<close> and the list display of twenty values.\<close>

definition track_details :: "pyval \<Rightarrow> pyval \<Rightarrow> pyval \<Rightarrow> error + pyval list" where
  "track_details item features playlist_name =
     ebind (getitem item (PStr ''track'')) (\<lambda>track.
       sequence_err
         [getitem item (PStr ''added_at''),
          getitem track (PStr ''name''),
          getitem track (PStr ''id''),
          ebind (getitem track (PStr ''artists'')) (\<lambda>artists.
            ebind (getitem artists (PInt 0)) (\<lambda>artist. getitem artist (PStr ''name''))),
          ebind (getitem track (PStr ''album'')) (\<lambda>album. getitem album (PStr ''name'')),
          getitem track (PStr ''popularity''),
          getitem features (PStr ''danceability''),
          getitem features (PStr ''energy''),
          getitem features (PStr ''key''),
          getitem features (PStr ''loudness''),
          getitem features (PStr ''mode''),
          getitem features (PStr ''speechiness''),
          getitem features (PStr ''acousticness''),
          getitem features (PStr ''instrumentalness''),
          getitem features (PStr ''liveness''),
          getitem features (PStr ''valence''),
          getitem features (PStr ''tempo''),
          getitem features (PStr ''duration_ms''),
          getitem features (PStr ''time_signature''),
          Inr playlist_name])"

fun merge_loop ::
  "(pyval \<times> pyval) list \<Rightarrow> pyval \<Rightarrow> string list \<Rightarrow> pyval list list \<Rightarrow> error + pyval list list" where
  "merge_loop [] playlist_name extra_track_info track_list = Inr track_list"
| "merge_loop ((item, features) # rest) playlist_name extra_track_info track_list =
     (if \<not> truthy item \<or> \<not> truthy features then
        merge_loop rest playlist_name extra_track_info track_list
      else
        (case track_details item features playlist_name of
           Inl e \<Rightarrow> Inl e
         | Inr details \<Rightarrow>
             if extra_track_info \<noteq> [] then
               (case get_track_info item extra_track_info of
                  Inl e \<Rightarrow> Inl e
                | Inr extra_features \<Rightarrow>
                    merge_loop rest playlist_name extra_track_info
                      (track_list @ [details @ extra_features]))
             else merge_loop rest playlist_name extra_track_info (track_list @ [details])))"

text \<open>\<^verbatim>\<open>pd.DataFrame(track_list, columns = column_names)\<close> is library code: the
  constructor is the parameter \<open>pd_DataFrame\<close>, called with the rows and the column names.
  What it returns (it converts the cells of a column to a common type) or raises is the
  function's result.\<close>

definition merge_track_details_and_features ::
  "(pyval list list \<Rightarrow> string list \<Rightarrow> error + 'df)
     \<Rightarrow> pyval list \<Rightarrow> pyval list \<Rightarrow> pyval \<Rightarrow> string list \<Rightarrow> error + 'df" where
  "merge_track_details_and_features pd_DataFrame tracks audio_features playlist_name extra_track_info =
     (case merge_loop (zip tracks audio_features) playlist_name extra_track_info [] of
        Inl e \<Rightarrow> Inl e
      | Inr track_list \<Rightarrow> pd_DataFrame track_list (base_column_names @ extra_track_info))"

section \<open>Search by name and artist\<close>

text \<open>The argument \<^verbatim>\<open>time_points\<close> is a plain list (the default is \<^verbatim>\<open>[]\<close>) or a
  \<^verbatim>\<open>pandas.Series\<close>. Both have a length; only a Series has \<^verbatim>\<open>.iloc\<close>.\<close>

datatype timepoints = TPList "pyval list" | TPSeries "pyval list"

fun tp_len :: "timepoints \<Rightarrow> nat" where
  "tp_len (TPList xs) = length xs"
| "tp_len (TPSeries xs) = length xs"

fun iloc :: "timepoints \<Rightarrow> nat \<Rightarrow> error + pyval" where
  "iloc (TPList xs) i = Inl AttributeError"
| "iloc (TPSeries xs) i = (if i < length xs then Inr (xs ! i) else Inl IndexError)"

text \<open>\<^verbatim>\<open>results.get('tracks', {}).get('items', [])\<close>.\<close>

definition track_items_of :: "pyval \<Rightarrow> error + pyval" where
  "track_items_of results =
     ebind (dict_get results ''tracks'' (PDict [])) (\<lambda>t. dict_get t ''items'' (PList []))"

text \<open>The loop over \<^verbatim>\<open>enumerate(zip(track_names, artist_names))\<close>. In the dictionary
  display the value of \<^verbatim>\<open>'added_at'\<close> is evaluated before \<^verbatim>\<open>track_items[0]\<close>.\<close>

fun search_loop ::
  "'s spotify \<Rightarrow> timepoints \<Rightarrow> nat \<Rightarrow> (string \<times> string) list \<Rightarrow> pyval list
     \<Rightarrow> (error + pyval list) \<times> 's spotify" where
  "search_loop sp time_points i [] tracks = (Inr tracks, sp)"
| "search_loop sp time_points i ((track_name, artist_name) # rest) tracks =
     (let query = ''track:'' @ track_name @ '' artist:'' @ artist_name in
      case sp_search sp query ''track'' 1 of
        (Inl e, sp') \<Rightarrow> (Inl e, sp')
      | (Inr results, sp') \<Rightarrow>
          (case track_items_of results of
             Inl e \<Rightarrow> (Inl e, sp')
           | Inr track_items \<Rightarrow>
               if truthy track_items then
                 (case ebind (if tp_len time_points > 0 then iloc time_points i else Inr PNone) (\<lambda>added_at.
                         ebind (getitem track_items (PInt 0)) (\<lambda>track.
                           Inr (PDict [(''added_at'', added_at), (''track'', track)]))) of
                    Inl e \<Rightarrow> (Inl e, sp')
                  | Inr song_format \<Rightarrow>
                      search_loop sp' time_points (i + 1) rest (tracks @ [song_format]))
               else search_loop sp' time_points (i + 1) rest tracks))"

definition get_tracks_by_names_and_artists ::
  "'s spotify \<Rightarrow> string list \<Rightarrow> string list \<Rightarrow> timepoints \<Rightarrow> (error + pyval list) \<times> 's spotify" where
  "get_tracks_by_names_and_artists sp track_names artist_names time_points =
     (if length track_names \<noteq> length artist_names then (Inl ValueError, sp)
      else if tp_len time_points > 0 \<and> length track_names \<noteq> tp_len time_points then (Inl ValueError, sp)
      else search_loop sp time_points 0 (zip track_names artist_names) [])"

section \<open>Trend statistics\<close>

text \<open>
  \<^verbatim>\<open>bootstrap_ci\<close> of \<^verbatim>\<open>plot_func.py\<close> computes with numpy on float64 values. A float64
  value is modelled by the real number it stands for, and the arithmetic by a rounding
  function \<open>fl\<close>, a parameter: every operation returns \<open>fl\<close> of its exact result. The random
  generator is a parameter too: \<open>choice k data count\<close> is what the call number \<open>k\<close> of
  \<^verbatim>\<open>np.random.choice(data, size=count, replace=True)\<close> returns. The value \<open>None\<close> stands for
  the cases in which numpy computes with nan or on an empty array (empty data,
  \<^verbatim>\<open>n_bootstrap = 0\<close>); they and overflow to infinity are left out of the model.
\<close>







section \<open>Definitions used to state the properties\<close>

text \<open>Consecutive chunks of at most \<open>n\<close> elements, as the specification words the
  batching of \<^verbatim>\<open>get_audio_features\<close>.\<close>

function chunks :: "nat \<Rightarrow> 'a list \<Rightarrow> 'a list list" where
  "chunks n xs = (if n = 0 \<or> xs = [] then [] else take n xs # chunks n (drop n xs))"
  by pat_completeness auto
termination
  by (relation "measure (\<lambda>(n, xs). length xs)") auto

declare chunks.simps [simp del]

text \<open>The answers the service gives when it is sent the batches one after the other.\<close>

fun audio_responses :: "'s spotify \<Rightarrow> pyval list list \<Rightarrow> (error + pyval) list" where
  "audio_responses sp [] = []"
| "audio_responses sp (batch # batches) =
     (case sp_audio_features sp batch of (r, sp') \<Rightarrow> r # audio_responses sp' batches)"

text \<open>A service that resolves no track and finds nothing: one \<^verbatim>\<open>None\<close> per identifier,
  an empty search result.\<close>

definition silent_service :: "unit spotify" where
  "silent_service =
     \<lparr>audio_features_impl = (\<lambda>s batch. (Inr (PList (map (\<lambda>t. PNone) batch)), s)),
      search_impl = (\<lambda>s q ty limit. (Inr (PDict []), s)),
      remote = (), requests = []\<rparr>"



text \<open>Sample records of the shapes the Web API returns: a track, a playlist entry around a
  track reference, an audio-feature vector.\<close>

definition sample_track :: "string \<Rightarrow> pyval" where
  "sample_track n =
     PDict [(''name'', PStr n), (''id'', PStr n),
            (''artists'', PList [PDict [(''name'', PStr ''artist'')]]),
            (''album'', PDict [(''name'', PStr ''album''), (''album_type'', PStr ''single'')]),
            (''popularity'', PInt 50)]"

definition sample_entry :: "string \<Rightarrow> pyval \<Rightarrow> pyval" where
  "sample_entry t track = PDict [(''added_at'', PStr t), (''track'', track)]"

definition sample_features :: "pyval" where
  "sample_features =
     PDict [(''danceability'', PFloat 0.5), (''energy'', PFloat 0.5), (''key'', PInt 1),
            (''loudness'', PFloat (-5)), (''mode'', PInt 1), (''speechiness'', PFloat 0.5),
            (''acousticness'', PFloat 0.5), (''instrumentalness'', PFloat 0),
            (''liveness'', PFloat 0.5), (''valence'', PFloat 0.5), (''tempo'', PFloat 120),
            (''duration_ms'', PInt 1000), (''time_signature'', PInt 4)]"

text \<open>The answers the service gives to the searches for the given (name, artist) pairs,
  sent one after the other.\<close>

fun search_responses :: "'s spotify \<Rightarrow> (string \<times> string) list \<Rightarrow> (error + pyval) list" where
  "search_responses sp [] = []"
| "search_responses sp ((track_name, artist_name) # rest) =
     (case sp_search sp (''track:'' @ track_name @ '' artist:'' @ artist_name) ''track'' 1 of
        (r, sp') \<Rightarrow> r # search_responses sp' rest)"

fun tp_values :: "timepoints \<Rightarrow> pyval list" where
  "tp_values (TPList xs) = xs"
| "tp_values (TPSeries xs) = xs"

text \<open>The result the specification describes for \<^verbatim>\<open>get_tracks_by_names_and_artists\<close>:
  given the list of items each search returned, one entry for each index with a match,
  holding the first item and the time point of that index; nothing for an index without.\<close>

fun found_tracks :: "timepoints \<Rightarrow> nat \<Rightarrow> pyval list list \<Rightarrow> pyval list" where
  "found_tracks tp i [] = []"
| "found_tracks tp i (items # rest) =
     (case items of
        [] \<Rightarrow> found_tracks tp (i + 1) rest
      | t # ts \<Rightarrow>
          PDict [(''added_at'', if tp_len tp > 0 then tp_values tp ! i else PNone), (''track'', t)]
            # found_tracks tp (i + 1) rest)"

text \<open>A service whose search finds one track, under the name \<open>one\<close>, and nothing else.\<close>

definition one_hit_service :: "unit spotify" where
  "one_hit_service =
     \<lparr>audio_features_impl = (\<lambda>s batch. (Inr (PList (map (\<lambda>t. PNone) batch)), s)),
      search_impl = (\<lambda>s q ty limit.
         (if q = ''track:one artist:artist''
          then Inr (PDict [(''tracks'', PDict [(''items'', PList [sample_track ''one''])])])
          else Inr (PDict [(''tracks'', PDict [(''items'', PList [])])]), s)),
      remote = (), requests = []\<rparr>"

text \<open>A playlist entry as the Web API returns it: a dictionary whose \<^verbatim>\<open>'track'\<close> is null or
  a track object with an identifier.\<close>

fun track_ref :: "pyval \<Rightarrow> pyval option" where
  "track_ref (PDict kvs) = map_of kvs ''track''"
| "track_ref v = None"

fun ident :: "pyval \<Rightarrow> pyval option" where
  "ident (PDict kvs) = map_of kvs ''id''"
| "ident v = None"

definition playlist_entry :: "pyval \<Rightarrow> bool" where
  "playlist_entry item =
     (case track_ref item of
        Some PNone \<Rightarrow> True
      | Some (PDict t) \<Rightarrow> t \<noteq> [] \<and> map_of t ''id'' \<noteq> None
      | _ \<Rightarrow> False)"




section \<open>Properties of the resolver\<close>

lemma re_split_brackets_nonempty: "re_split_brackets s \<noteq> []"
  by (induction s) (auto split: list.splits)

lemma concat_re_split_brackets:
  "concat (re_split_brackets s) = filter (\<lambda>c. c \<noteq> CHR ''['' \<and> c \<noteq> CHR '']'') s"
  by (induction s) (auto split: list.splits simp: re_split_brackets_nonempty)

lemma re_split_brackets_no_bracket:
  "p \<in> set (re_split_brackets s) \<Longrightarrow> CHR ''['' \<notin> set p \<and> CHR '']'' \<notin> set p"
  by (induction s arbitrary: p) (auto split: list.splits if_splits)

lemma concat_filter_nonempty: "concat (filter (\<lambda>p. p \<noteq> []) ps) = concat ps"
  by (induction ps) auto

lemma re_split_brackets_unfold:
  "re_split_brackets s =
     (case dropWhile (\<lambda>c. c \<noteq> CHR ''['' \<and> c \<noteq> CHR '']'') s of
        [] \<Rightarrow> [takeWhile (\<lambda>c. c \<noteq> CHR ''['' \<and> c \<noteq> CHR '']'') s]
      | c # rest \<Rightarrow> takeWhile (\<lambda>c. c \<noteq> CHR ''['' \<and> c \<noteq> CHR '']'') s # re_split_brackets rest)"
proof (induction s)
  case Nil
  show ?case by simp
next
  case (Cons a s)
  note IH = Cons.IH
  show ?case
  proof (cases "a = CHR ''['' \<or> a = CHR '']''")
    case True
    then show ?thesis by auto
  next
    case False
    then have nb: "a \<noteq> CHR ''['' \<and> a \<noteq> CHR '']''" by simp
    show ?thesis
    proof (cases "dropWhile (\<lambda>c. c \<noteq> CHR ''['' \<and> c \<noteq> CHR '']'') s")
      case Nil
      with IH have "re_split_brackets s = [takeWhile (\<lambda>c. c \<noteq> CHR ''['' \<and> c \<noteq> CHR '']'') s]"
        by (simp only: list.case)
      with nb Nil show ?thesis by (simp del: dropWhile_eq_Nil_conv)
    next
      case (Cons c rest)
      with IH have "re_split_brackets s =
          takeWhile (\<lambda>c. c \<noteq> CHR ''['' \<and> c \<noteq> CHR '']'') s # re_split_brackets rest"
        by (simp only: list.case)
      with nb Cons show ?thesis by simp
    qed
  qed
qed

lemma split_by_brackets_unfold:
  "split_by_brackets s =
     (if takeWhile (\<lambda>c. c \<noteq> CHR ''['' \<and> c \<noteq> CHR '']'') s = [] then []
      else [takeWhile (\<lambda>c. c \<noteq> CHR ''['' \<and> c \<noteq> CHR '']'') s])
     @ (case dropWhile (\<lambda>c. c \<noteq> CHR ''['' \<and> c \<noteq> CHR '']'') s of
          [] \<Rightarrow> []
        | c # rest \<Rightarrow> split_by_brackets rest)"
proof (cases "dropWhile (\<lambda>c. c \<noteq> CHR ''['' \<and> c \<noteq> CHR '']'') s")
  case Nil
  have "re_split_brackets s = [takeWhile (\<lambda>c. c \<noteq> CHR ''['' \<and> c \<noteq> CHR '']'') s]"
    by (subst re_split_brackets_unfold) (simp only: Nil list.case)
  then show ?thesis
    by (simp only: split_by_brackets_def Let_def Nil list.case) simp
next
  case (Cons c rest)
  have "re_split_brackets s =
          takeWhile (\<lambda>c. c \<noteq> CHR ''['' \<and> c \<noteq> CHR '']'') s # re_split_brackets rest"
    by (subst re_split_brackets_unfold) (simp only: Cons list.case)
  then show ?thesis
    by (simp only: split_by_brackets_def Let_def Cons list.case) simp
qed

text \<open>The equation of the next theorem has one solution: a function that satisfies it
  is \<open>split_by_brackets\<close>.\<close>

lemma split_by_brackets_determined:
  assumes "\<And>s. f s =
     (if takeWhile (\<lambda>c. c \<noteq> CHR ''['' \<and> c \<noteq> CHR '']'') s = [] then []
      else [takeWhile (\<lambda>c. c \<noteq> CHR ''['' \<and> c \<noteq> CHR '']'') s])
     @ (case dropWhile (\<lambda>c. c \<noteq> CHR ''['' \<and> c \<noteq> CHR '']'') s of
          [] \<Rightarrow> []
        | c # rest \<Rightarrow> f rest)"
  shows "f s = split_by_brackets s"
proof (induction s rule: length_induct)
  case (1 s)
  let ?nb = "\<lambda>c. c \<noteq> CHR ''['' \<and> c \<noteq> CHR '']''"
  let ?head = "if takeWhile ?nb s = [] then [] else [takeWhile ?nb s]"
  show ?case
  proof (cases "dropWhile ?nb s")
    case Nil
    have "f s = ?head @ []"
      by (subst assms) (simp only: Nil list.case)
    moreover have "split_by_brackets s = ?head @ []"
      by (subst split_by_brackets_unfold) (simp only: Nil list.case)
    ultimately show ?thesis by simp
  next
    case (Cons c rest)
    have "length (dropWhile ?nb s) \<le> length s" by (rule length_dropWhile_le)
    then have "length rest < length s" by (simp only: Cons) simp
    with 1 have ih: "f rest = split_by_brackets rest" by blast
    have "f s = ?head @ f rest"
      by (subst assms) (simp only: Cons list.case)
    moreover have "split_by_brackets s = ?head @ split_by_brackets rest"
      by (subst split_by_brackets_unfold) (simp only: Cons list.case)
    ultimately show ?thesis by (simp only: ih)
  qed
qed

text \<open>
  Claim C4. \<open>split_by_brackets\<close> cuts its input at every character \<open>[\<close> and \<open>]\<close> and
  drops the empty parts. The three examples of the specification evaluate as stated, and
  so do a path of three keys and an input with a single bracket. In general the result
  is the text before the first bracket, unless that text is empty, followed by the result
  for the text after that bracket; this fixes the result on every input. No part of a
  result is empty, and the parts put together are the input without its brackets.
\<close>

theorem split_by_brackets_examples:
  "split_by_brackets ''[a][b][c]'' = [''a'', ''b'', ''c'']
   \<and> split_by_brackets ''abc'' = [''abc'']
   \<and> split_by_brackets ''[][a][]'' = [''a'']
   \<and> split_by_brackets ''[track][album][album_type]'' = [''track'', ''album'', ''album_type'']
   \<and> split_by_brackets ''a[b'' = [''a'', ''b'']
   \<and> split_by_brackets s =
        (if takeWhile (\<lambda>c. c \<noteq> CHR ''['' \<and> c \<noteq> CHR '']'') s = [] then []
         else [takeWhile (\<lambda>c. c \<noteq> CHR ''['' \<and> c \<noteq> CHR '']'') s])
        @ (case dropWhile (\<lambda>c. c \<noteq> CHR ''['' \<and> c \<noteq> CHR '']'') s of
             [] \<Rightarrow> []
           | c # rest \<Rightarrow> split_by_brackets rest)
   \<and> [] \<notin> set (split_by_brackets s)
   \<and> concat (split_by_brackets s) = filter (\<lambda>c. c \<noteq> CHR ''['' \<and> c \<noteq> CHR '']'') s"
proof -
  have ex: "split_by_brackets ''[a][b][c]'' = [''a'', ''b'', ''c'']"
    "split_by_brackets ''abc'' = [''abc'']"
    "split_by_brackets ''[][a][]'' = [''a'']"
    "split_by_brackets ''[track][album][album_type]'' = [''track'', ''album'', ''album_type'']"
    "split_by_brackets ''a[b'' = [''a'', ''b'']"
    by (simp_all add: split_by_brackets_def)
  have gen: "[] \<notin> set (split_by_brackets s)"
    "concat (split_by_brackets s) = filter (\<lambda>c. c \<noteq> CHR ''['' \<and> c \<noteq> CHR '']'') s"
    by (simp_all add: split_by_brackets_def concat_filter_nonempty concat_re_split_brackets)
  show ?thesis
    using ex gen split_by_brackets_unfold[of s] by blast
qed

text \<open>
  Claim C5. \<open>get_nested_value\<close> indexes one key at a time: the example of the
  specification resolves to 10; a key path that indexes into a scalar fails with
  \<open>TypeError\<close> and a missing key with \<open>KeyError\<close>; resolving a path is resolving its
  first part and then the rest from the value reached, an error of the first part ending
  the whole; and one string key resolves in a dictionary that has it, is a \<open>KeyError\<close>
  in a dictionary that lacks it, and a \<open>TypeError\<close> on anything else. No case yields a
  default value.
\<close>

theorem get_nested_value_sequential:
  "get_nested_value (PDict [(''a'', PDict [(''b'', PDict [(''c'', PInt 10)])])])
       [PStr ''a'', PStr ''b'', PStr ''c''] = Inr (PInt 10)
   \<and> get_nested_value (PDict [(''a'', PInt 1)]) [PStr ''a'', PStr ''b''] = Inl TypeError
   \<and> get_nested_value (PDict [(''a'', PInt 1)]) [PStr ''b''] = Inl KeyError
   \<and> get_nested_value dic (ks @ ks') =
        (case get_nested_value dic ks of Inl e \<Rightarrow> Inl e | Inr v \<Rightarrow> get_nested_value v ks')
   \<and> get_nested_value v [PStr k] =
        (case v of
           PDict d \<Rightarrow> (case map_of d k of None \<Rightarrow> Inl KeyError | Some w \<Rightarrow> Inr w)
         | _ \<Rightarrow> Inl TypeError)"
proof -
  have seq: "get_nested_value dic (ks @ ks') =
        (case get_nested_value dic ks of Inl e \<Rightarrow> Inl e | Inr v \<Rightarrow> get_nested_value v ks')"
    by (induction ks arbitrary: dic) (auto split: sum.splits)
  have step: "get_nested_value v [PStr k] =
        (case v of
           PDict d \<Rightarrow> (case map_of d k of None \<Rightarrow> Inl KeyError | Some w \<Rightarrow> Inr w)
         | _ \<Rightarrow> Inl TypeError)"
    by (cases v) (auto split: option.splits sum.splits)
  show ?thesis using seq step by simp
qed

section \<open>Properties of the record flattener\<close>



lemma sample_row:
  "track_details (sample_entry t (sample_track n)) sample_features label =
     Inr [PStr t, PStr n, PStr n, PStr ''artist'', PStr ''album'', PInt 50,
          PFloat 0.5, PFloat 0.5, PInt 1, PFloat (-5), PInt 1, PFloat 0.5, PFloat 0.5,
          PFloat 0, PFloat 0.5, PFloat 0.5, PFloat 120, PInt 1000, PInt 4, label]"
  by (simp add: track_details_def sample_entry_def sample_track_def sample_features_def
        ebind_def seq_index_def)

lemma null_track_row:
  "track_details (sample_entry t PNone) sample_features label = Inl TypeError"
  by (simp add: track_details_def sample_entry_def sample_features_def ebind_def)

lemma merge_loop_skips:
  "\<not> truthy item \<or> \<not> truthy features \<Longrightarrow>
   merge_loop ((item, features) # rest) label extra acc = merge_loop rest label extra acc"
  by simp

text \<open>
  Claim C1. The claim asks that a playlist entry whose track reference is null is skipped
  without an error. The guard of the loop tests the entry and the feature vector, not the
  entry's track: on three entries with three feature vectors, the second entry holding a
  null track, the function raises \<open>TypeError\<close> at \<^verbatim>\<open>track['name']\<close> instead of returning
  two rows, whatever the table constructor would do.
\<close>

theorem merge_null_track_raises:
  "merge_track_details_and_features pd_DataFrame
     [sample_entry ''t1'' (sample_track ''one''), sample_entry ''t2'' PNone,
      sample_entry ''t3'' (sample_track ''three'')]
     [sample_features, sample_features, sample_features] (PStr ''liked'') []
   = Inl TypeError"
proof -
  have t: "truthy (sample_entry t v)" "truthy sample_features" for t v
    by (simp_all add: sample_entry_def sample_features_def)
  show ?thesis
    by (simp add: merge_track_details_and_features_def t sample_row null_track_row)
qed





section \<open>Properties of the batched feature lookup\<close>

lemma concat_chunks: "0 < n \<Longrightarrow> concat (chunks n xs) = xs"
proof (induction n xs rule: chunks.induct)
  case (1 n xs)
  then show ?case by (subst chunks.simps) simp
qed

lemma chunks_bounded: "list_all (\<lambda>b. b \<noteq> [] \<and> length b \<le> n) (chunks n xs)"
proof (induction n xs rule: chunks.induct)
  case (1 n xs)
  then show ?case by (subst chunks.simps) simp
qed

lemma chunks_250:
  assumes "length xs = 250"
  shows "map length (chunks 100 xs) = [100, 100, 50]"
proof -
  have ne: "xs \<noteq> []" using assms by (cases xs) simp_all
  have 1: "chunks 100 xs = take 100 xs # chunks 100 (drop 100 xs)"
    using ne by (subst chunks.simps) simp
  have 2: "chunks 100 (drop 100 xs) = take 100 (drop 100 xs) # chunks 100 (drop 200 xs)"
    using assms by (subst chunks.simps) auto
  have 3: "chunks 100 (drop 200 xs) = [drop 200 xs]"
    using assms by (subst chunks.simps, subst chunks.simps) auto
  show ?thesis using assms by (simp add: 1 2 3)
qed

lemma chunks_drop_step:
  "i < length xs \<Longrightarrow> chunks 100 (drop i xs) = take 100 (drop i xs) # chunks 100 (drop (i + 100) xs)"
  by (subst chunks.simps) (simp add: add.commute)

lemma loop_batches:
  assumes "audio_responses sp (chunks 100 (drop i track_ids)) = map (\<lambda>ys. Inr (PList ys)) yss"
  shows "fst (get_audio_features_loop sp track_ids i acc) = Inr (acc @ concat yss)
       \<and> requests (snd (get_audio_features_loop sp track_ids i acc)) =
           requests sp @ map AudioFeaturesRequest (chunks 100 (drop i track_ids))"
  using assms
proof (induction sp track_ids i acc arbitrary: yss rule: get_audio_features_loop.induct)
  case (1 sp track_ids i acc)
  show ?case
  proof (cases "i < length track_ids")
    case False
    then have "chunks 100 (drop i track_ids) = []" by (subst chunks.simps) simp
    with "1.prems" False show ?thesis by (subst (1 2) get_audio_features_loop.simps) simp
  next
    case True
    let ?batch = "take 100 (drop i track_ids)"
    obtain r sp' where call: "sp_audio_features sp ?batch = (r, sp')" by (cases "sp_audio_features sp ?batch")
    from "1.prems" chunks_drop_step[OF True] call obtain ys yss' where
      yss: "yss = ys # yss'" and r: "r = Inr (PList ys)"
      and rest: "audio_responses sp' (chunks 100 (drop (i + 100) track_ids)) = map (\<lambda>ys. Inr (PList ys)) yss'"
      by (cases yss) auto
    have req: "requests sp' = requests sp @ [AudioFeaturesRequest ?batch]"
      using call by (auto simp: sp_audio_features_def split: prod.splits)
    have ext: "list_extend acc (PList ys) = Inr (acc @ ys)" by simp
    note ih = "1.IH"[OF True call[symmetric] r ext rest]
    have unfold: "get_audio_features_loop sp track_ids i acc = get_audio_features_loop sp' track_ids (i + 100) (acc @ ys)"
      using True call r by (subst get_audio_features_loop.simps) simp
    show ?thesis using ih by (simp add: unfold yss req chunks_drop_step[OF True])
  qed
qed

lemma lengths_concat:
  "list_all2 (\<lambda>b ys. length ys = length b) bs yss \<Longrightarrow> length (concat yss) = length (concat bs)"
  by (induction rule: list_all2_induct) auto

text \<open>
  Claim C3. When the service answers every batch with a list, \<open>get_audio_features\<close>
  returns the concatenation of the answers, unfiltered and in order, and the requests it
  has made are exactly the consecutive chunks of the input: each non-empty and of at most
  100 identifiers, together the whole input. For 250 identifiers the chunks have sizes
  100, 100 and 50; and when each answer has one element per identifier of its batch, the
  result is as long as the input.
\<close>

theorem get_audio_features_batches:
  assumes "audio_responses sp (chunks 100 track_ids) = map (\<lambda>ys. Inr (PList ys)) yss"
  shows "fst (get_audio_features sp track_ids) = Inr (concat yss)
     \<and> requests (snd (get_audio_features sp track_ids)) =
         requests sp @ map AudioFeaturesRequest (chunks 100 track_ids)
     \<and> concat (chunks 100 track_ids) = track_ids
     \<and> list_all (\<lambda>b. b \<noteq> [] \<and> length b \<le> 100) (chunks 100 track_ids)
     \<and> (length track_ids = 250 \<longrightarrow> map length (chunks 100 track_ids) = [100, 100, 50])
     \<and> (list_all2 (\<lambda>b ys. length ys = length b) (chunks 100 track_ids) yss
          \<longrightarrow> length (concat yss) = length track_ids)"
proof -
  have run: "fst (get_audio_features sp track_ids) = Inr (concat yss)
     \<and> requests (snd (get_audio_features sp track_ids)) =
         requests sp @ map AudioFeaturesRequest (chunks 100 track_ids)"
    using loop_batches[of sp 0 track_ids yss "[]"] assms by (simp add: get_audio_features_def)
  have cc: "concat (chunks 100 track_ids) = track_ids" by (simp add: concat_chunks)
  have len: "list_all2 (\<lambda>b ys. length ys = length b) (chunks 100 track_ids) yss
          \<longrightarrow> length (concat yss) = length track_ids"
    using lengths_concat[of "chunks 100 track_ids" yss] cc by auto
  show ?thesis using run cc len chunks_bounded[of 100 track_ids] chunks_250[of track_ids] by blast
qed

text \<open>250 identifiers sent to a service that answers \<^verbatim>\<open>None\<close> for each: three requests,
  250 values.\<close>

theorem get_audio_features_batches_witness:
  "audio_responses silent_service (chunks 100 (replicate 250 (PStr ''id''))) =
     map (\<lambda>ys. Inr (PList ys)) [replicate 100 PNone, replicate 100 PNone, replicate 50 PNone]
   \<and> fst (get_audio_features silent_service (replicate 250 (PStr ''id''))) = Inr (replicate 250 PNone)
   \<and> map length (chunks 100 (replicate 250 (PStr ''id''))) = [100, 100, 50]
   \<and> requests (snd (get_audio_features silent_service (replicate 250 (PStr ''id'')))) =
        [AudioFeaturesRequest (replicate 100 (PStr ''id'')),
         AudioFeaturesRequest (replicate 100 (PStr ''id'')),
         AudioFeaturesRequest (replicate 50 (PStr ''id''))]"
proof -
  let ?ids = "replicate 250 (PStr ''id'')"
  have c: "chunks 100 ?ids = [replicate 100 (PStr ''id''), replicate 100 (PStr ''id''), replicate 50 (PStr ''id'')]"
    by (simp add: chunks.simps)
  have r: "audio_responses silent_service (chunks 100 ?ids) =
     map (\<lambda>ys. Inr (PList ys)) [replicate 100 PNone, replicate 100 PNone, replicate 50 PNone]"
    by (simp add: c sp_audio_features_def silent_service_def)
  have cat: "replicate 100 x @ replicate 100 x @ replicate 50 x = replicate 250 x" for x :: pyval
    by (simp add: replicate_add[symmetric])
  show ?thesis
    using get_audio_features_batches[OF r] r by (simp add: c cat silent_service_def)
qed

section \<open>Properties of the identifier extraction\<close>

lemma extract_track_ids_entries:
  "list_all playlist_entry tracks \<Longrightarrow>
   extract_track_ids sp tracks =
     Inr (map (\<lambda>item. the (ident (the (track_ref item))))
           (filter (\<lambda>item. track_ref item \<noteq> Some PNone) tracks))"
proof (induction tracks)
  case Nil
  then show ?case by simp
next
  case (Cons item tracks)
  then have e: "playlist_entry item" and ih: "extract_track_ids sp tracks =
     Inr (map (\<lambda>item. the (ident (the (track_ref item))))
           (filter (\<lambda>item. track_ref item \<noteq> Some PNone) tracks))" by simp_all
  from e show ?case
    by (cases item) (auto simp: playlist_entry_def ih ebind_def split: option.splits pyval.splits)
qed

text \<open>
  Claim C8. On a list of playlist entries \<open>extract_track_ids\<close> returns the identifiers of
  the entries whose track reference is not null, in the order of the input, so at most as
  many as there are entries; the result does not depend on the client passed, so a second
  call on the same list returns the same identifiers.
\<close>

theorem extract_track_ids_filters:
  assumes "list_all playlist_entry tracks"
  shows "extract_track_ids sp tracks =
           Inr (map (\<lambda>item. the (ident (the (track_ref item))))
                 (filter (\<lambda>item. track_ref item \<noteq> Some PNone) tracks))
       \<and> (\<exists>ids. extract_track_ids sp tracks = Inr ids \<and> length ids \<le> length tracks)
       \<and> extract_track_ids sp' tracks = extract_track_ids sp tracks"
  using extract_track_ids_entries[OF assms, of sp] extract_track_ids_entries[OF assms, of sp']
  by simp

text \<open>Three entries, the second with a null track: the identifiers of the first and the
  third.\<close>

theorem extract_track_ids_filters_witness:
  "list_all playlist_entry
     [sample_entry ''t1'' (sample_track ''one''), sample_entry ''t2'' PNone,
      sample_entry ''t3'' (sample_track ''three'')]
   \<and> extract_track_ids one_hit_service
       [sample_entry ''t1'' (sample_track ''one''), sample_entry ''t2'' PNone,
        sample_entry ''t3'' (sample_track ''three'')] = Inr [PStr ''one'', PStr ''three'']"
proof -
  have wf: "list_all playlist_entry
     [sample_entry ''t1'' (sample_track ''one''), sample_entry ''t2'' PNone,
      sample_entry ''t3'' (sample_track ''three'')]"
    by (simp add: playlist_entry_def sample_entry_def sample_track_def)
  from extract_track_ids_filters[OF wf, of one_hit_service one_hit_service] wf show ?thesis
    by (simp add: sample_entry_def sample_track_def)
qed

section \<open>Properties of the search by name and artist\<close>

text \<open>
  Claim C6. When the lists of names and artists differ in length, or a non-empty
  \<open>time_points\<close> differs in length from the names, \<open>get_tracks_by_names_and_artists\<close>
  raises \<open>ValueError\<close> and returns the client as it received it: no request is made and
  the state of the service is untouched.
\<close>

theorem mismatched_lengths_rejected:
  assumes "length track_names \<noteq> length artist_names
           \<or> (0 < tp_len time_points \<and> tp_len time_points \<noteq> length track_names)"
  shows "get_tracks_by_names_and_artists sp track_names artist_names time_points = (Inl ValueError, sp)"
  using assms by (auto simp: get_tracks_by_names_and_artists_def)

text \<open>Two names with one artist, and two names with a Series of one time point: both are
  rejected and the request log stays empty.\<close>

theorem mismatched_lengths_rejected_witness:
  "length [''one'', ''two''] \<noteq> length [''artist'']
   \<and> get_tracks_by_names_and_artists one_hit_service [''one'', ''two''] [''artist''] (TPList [])
       = (Inl ValueError, one_hit_service)
   \<and> 0 < tp_len (TPSeries [PStr ''t1'']) \<and> tp_len (TPSeries [PStr ''t1'']) \<noteq> length [''one'', ''two'']
   \<and> get_tracks_by_names_and_artists one_hit_service [''one'', ''two''] [''artist'', ''artist'']
        (TPSeries [PStr ''t1'']) = (Inl ValueError, one_hit_service)
   \<and> requests (snd (get_tracks_by_names_and_artists one_hit_service [''one'', ''two''] [''artist''] (TPList [])))
       = []"
  using mismatched_lengths_rejected[of "[''one'', ''two'']" "[''artist'']" "TPList []" one_hit_service]
    mismatched_lengths_rejected[of "[''one'', ''two'']" "[''artist'', ''artist'']" "TPSeries [PStr ''t1'']" one_hit_service]
  by (simp add: one_hit_service_def)

lemma length_search_responses: "length (search_responses sp zs) = length zs"
  by (induction zs arbitrary: sp) (auto split: prod.splits)

lemma length_found_tracks:
  "length (found_tracks tp i itemss) = length (filter (\<lambda>items. items \<noteq> []) itemss)"
  by (induction itemss arbitrary: i) (auto split: list.splits)

lemma ebind_items_Inr:
  "ebind r track_items_of = Inr v \<Longrightarrow> \<exists>results. r = Inr results \<and> track_items_of results = Inr v"
  by (cases r) (simp_all add: ebind_def)

lemma requests_sp_search:
  "sp_search sp q ty limit = (r, sp') \<Longrightarrow> requests sp' = requests sp @ [SearchRequest q ty limit]"
  by (auto simp: sp_search_def split: prod.splits)

lemma search_loop_found:
  assumes "map (\<lambda>r. ebind r track_items_of) (search_responses sp zs) = map (\<lambda>items. Inr (PList items)) itemss"
    and "tp_len tp = 0 \<or> (\<exists>xs. tp = TPSeries xs \<and> i + length zs \<le> length xs)"
  shows "fst (search_loop sp tp i zs acc) = Inr (acc @ found_tracks tp i itemss)
       \<and> requests (snd (search_loop sp tp i zs acc)) =
           requests sp @ map (\<lambda>(n, a). SearchRequest (''track:'' @ n @ '' artist:'' @ a) ''track'' 1) zs"
  using assms
proof (induction zs arbitrary: sp i acc itemss)
  case Nil
  then show ?case by simp
next
  case (Cons z zs)
  let ?f = "\<lambda>(n, a). SearchRequest (''track:'' @ n @ '' artist:'' @ a) ''track'' 1"
  obtain n a where z: "z = (n, a)" by (cases z)
  let ?q = "''track:'' @ n @ '' artist:'' @ a"
  obtain r sp' where call: "sp_search sp ?q ''track'' 1 = (r, sp')"
    by (cases "sp_search sp ?q ''track'' 1")
  from Cons.prems(1) z call obtain items rest where
    itemss: "itemss = items # rest" and r: "ebind r track_items_of = Inr (PList items)"
    and rest: "map (\<lambda>r. ebind r track_items_of) (search_responses sp' zs) = map (\<lambda>items. Inr (PList items)) rest"
    by (cases itemss) auto
  from ebind_items_Inr[OF r] obtain results where
    res: "r = Inr results" and ti: "track_items_of results = Inr (PList items)" by blast
  have tp': "tp_len tp = 0 \<or> (\<exists>xs. tp = TPSeries xs \<and> (i + 1) + length zs \<le> length xs)"
    using Cons.prems(2) by auto
  have reqs: "requests sp @ map ?f (z # zs) = requests sp' @ map ?f zs"
    using requests_sp_search[OF call] by (simp add: z)
  show ?case
  proof (cases items)
    case Nil
    have step: "search_loop sp tp i (z # zs) acc = search_loop sp' tp (i + 1) zs acc"
      using z call res ti Nil by simp
    have ft: "found_tracks tp i itemss = found_tracks tp (i + 1) rest"
      by (simp add: itemss Nil)
    show ?thesis unfolding step ft reqs by (rule Cons.IH[OF rest tp'])
  next
    case (Cons t ts)
    let ?song = "PDict [(''added_at'', if tp_len tp > 0 then tp_values tp ! i else PNone), (''track'', t)]"
    have added: "(if tp_len tp > 0 then iloc tp i else Inr PNone)
                 = Inr (if tp_len tp > 0 then tp_values tp ! i else PNone)"
      using Cons.prems(2) by auto
    have step: "search_loop sp tp i (z # zs) acc = search_loop sp' tp (i + 1) zs (acc @ [?song])"
      using z call res ti Cons by (simp add: added seq_index_def ebind_def)
    have ft: "acc @ found_tracks tp i itemss = (acc @ [?song]) @ found_tracks tp (i + 1) rest"
      by (simp add: itemss Cons)
    show ?thesis unfolding step ft reqs by (rule Cons.IH[OF rest tp'])
  qed
qed

lemma search_loop_list_timepoints:
  assumes "map (\<lambda>r. ebind r track_items_of) (search_responses sp zs) = map (\<lambda>items. Inr (PList items)) itemss"
    and "ts \<noteq> []" and "\<exists>items\<in>set itemss. items \<noteq> []"
  shows "fst (search_loop sp (TPList ts) i zs acc) = Inl AttributeError"
  using assms
proof (induction zs arbitrary: sp i acc itemss)
  case Nil
  then show ?case by simp
next
  case (Cons z zs)
  obtain n a where z: "z = (n, a)" by (cases z)
  let ?q = "''track:'' @ n @ '' artist:'' @ a"
  obtain r sp' where call: "sp_search sp ?q ''track'' 1 = (r, sp')"
    by (cases "sp_search sp ?q ''track'' 1")
  from Cons.prems(1) z call obtain items rest where
    itemss: "itemss = items # rest" and r: "ebind r track_items_of = Inr (PList items)"
    and rest: "map (\<lambda>r. ebind r track_items_of) (search_responses sp' zs) = map (\<lambda>items. Inr (PList items)) rest"
    by (cases itemss) auto
  from ebind_items_Inr[OF r] obtain results where
    res: "r = Inr results" and ti: "track_items_of results = Inr (PList items)" by blast
  show ?case
  proof (cases "items = []")
    case True
    have step: "search_loop sp (TPList ts) i (z # zs) acc = search_loop sp' (TPList ts) (i + 1) zs acc"
      using z call res ti True by simp
    from Cons.prems(3) itemss True have "\<exists>items\<in>set rest. items \<noteq> []" by simp
    from Cons.IH[OF rest Cons.prems(2) this] show ?thesis by (simp add: step)
  next
    case False
    then show ?thesis using z call res ti Cons.prems(2) by (simp add: ebind_def)
  qed
qed

lemma one_hit_responses:
  "map (\<lambda>r. ebind r track_items_of)
     (search_responses one_hit_service (zip [''one'', ''two''] [''artist'', ''artist'']))
   = map (\<lambda>items. Inr (PList items)) [[sample_track ''one''], []]"
  by (simp add: sp_search_def one_hit_service_def track_items_of_def ebind_def)

text \<open>
  Claim C7. For names and artists of equal length, time points absent (empty) or a Series
  of that length, and a service that answers every search with a well-formed result, the
  function returns one entry for each index whose search found a track, in input order,
  and nothing for the others: as many entries as there are searches with a match, at
  most one per name. It sends one search with limit 1 per index.
\<close>

theorem search_omits_unmatched:
  assumes "length track_names = length artist_names"
    and "tp_len time_points = 0 \<or> (\<exists>xs. time_points = TPSeries xs \<and> length xs = length track_names)"
    and "map (\<lambda>r. ebind r track_items_of) (search_responses sp (zip track_names artist_names))
           = map (\<lambda>items. Inr (PList items)) itemss"
  shows "fst (get_tracks_by_names_and_artists sp track_names artist_names time_points)
           = Inr (found_tracks time_points 0 itemss)
       \<and> length (found_tracks time_points 0 itemss) = length (filter (\<lambda>items. items \<noteq> []) itemss)
       \<and> length (found_tracks time_points 0 itemss) \<le> length track_names
       \<and> requests (snd (get_tracks_by_names_and_artists sp track_names artist_names time_points)) =
           requests sp @ map (\<lambda>(n, a). SearchRequest (''track:'' @ n @ '' artist:'' @ a) ''track'' 1)
                           (zip track_names artist_names)"
proof -
  let ?zs = "zip track_names artist_names"
  have lz: "length ?zs = length track_names" using assms(1) by simp
  have tp: "tp_len time_points = 0 \<or> (\<exists>xs. time_points = TPSeries xs \<and> 0 + length ?zs \<le> length xs)"
    using assms(2) lz by auto
  have unfold: "get_tracks_by_names_and_artists sp track_names artist_names time_points
                = search_loop sp time_points 0 ?zs []"
    using assms(1,2) by (auto simp: get_tracks_by_names_and_artists_def)
  have "length itemss = length (search_responses sp ?zs)"
    using arg_cong[OF assms(3), of length] by simp
  then have li: "length itemss = length track_names"
    unfolding length_search_responses lz .
  have le: "length (found_tracks time_points 0 itemss) \<le> length track_names"
    using length_filter_le[of "\<lambda>items. items \<noteq> []" itemss] li
    by (simp add: length_found_tracks)
  from search_loop_found[OF assms(3) tp, of "[]"] le show ?thesis
    by (simp add: unfold length_found_tracks)
qed

text \<open>Two searches, the first with a match: one entry, without time points and with a
  Series of two.\<close>

theorem search_omits_unmatched_witness:
  "length [''one'', ''two''] = length [''artist'', ''artist'']
   \<and> fst (get_tracks_by_names_and_artists one_hit_service [''one'', ''two''] [''artist'', ''artist''] (TPList []))
       = Inr [PDict [(''added_at'', PNone), (''track'', sample_track ''one'')]]
   \<and> fst (get_tracks_by_names_and_artists one_hit_service [''one'', ''two''] [''artist'', ''artist'']
            (TPSeries [PStr ''t1'', PStr ''t2'']))
       = Inr [PDict [(''added_at'', PStr ''t1''), (''track'', sample_track ''one'')]]"
proof -
  have l: "length [''one'', ''two''] = length [''artist'', ''artist'']" by simp
  have a: "tp_len (TPList []) = 0 \<or> (\<exists>xs. TPList [] = TPSeries xs \<and> length xs = length [''one'', ''two''])"
    by simp
  have b: "tp_len (TPSeries [PStr ''t1'', PStr ''t2'']) = 0
           \<or> (\<exists>xs. TPSeries [PStr ''t1'', PStr ''t2''] = TPSeries xs \<and> length xs = length [''one'', ''two''])"
    by simp
  from search_omits_unmatched[OF l a one_hit_responses] search_omits_unmatched[OF l b one_hit_responses]
  show ?thesis by simp
qed

text \<open>
  Claim C10. The time point of a match is read with \<^verbatim>\<open>time_points.iloc[i]\<close>. When
  \<open>time_points\<close> is a non-empty plain list of the length of the names, the service
  answers every search with a well-formed result and at least one search finds a track,
  the function raises \<open>AttributeError\<close> and returns nothing.
\<close>

theorem list_timepoints_attribute_error:
  assumes "length track_names = length artist_names"
    and "ts \<noteq> []" and "length ts = length track_names"
    and "map (\<lambda>r. ebind r track_items_of) (search_responses sp (zip track_names artist_names))
           = map (\<lambda>items. Inr (PList items)) itemss"
    and "\<exists>items\<in>set itemss. items \<noteq> []"
  shows "fst (get_tracks_by_names_and_artists sp track_names artist_names (TPList ts))
           = Inl AttributeError"
proof -
  have unfold: "get_tracks_by_names_and_artists sp track_names artist_names (TPList ts)
                = search_loop sp (TPList ts) 0 (zip track_names artist_names) []"
    using assms(1,3) by (simp add: get_tracks_by_names_and_artists_def)
  from search_loop_list_timepoints[OF assms(4) assms(2) assms(5)] show ?thesis
    by (simp add: unfold)
qed

text \<open>The two searches above with a plain list of two time points.\<close>

theorem list_timepoints_attribute_error_witness:
  "length [''one'', ''two''] = length [''artist'', ''artist'']
   \<and> [PStr ''t1'', PStr ''t2''] \<noteq> []
   \<and> fst (get_tracks_by_names_and_artists one_hit_service [''one'', ''two''] [''artist'', ''artist'']
            (TPList [PStr ''t1'', PStr ''t2''])) = Inl AttributeError"
proof -
  have l: "length [''one'', ''two''] = length [''artist'', ''artist'']" by simp
  have n: "[PStr ''t1'', PStr ''t2''] \<noteq> []" by simp
  have m: "length [PStr ''t1'', PStr ''t2''] = length [''one'', ''two'']" by simp
  have h: "\<exists>items\<in>set [[sample_track ''one''], []]. items \<noteq> []" by simp
  from list_timepoints_attribute_error[OF l n m one_hit_responses h] show ?thesis by simp
qed

section \<open>Properties of the bootstrap interval\<close>





















end
